theory Spec2Isabelle
  imports Complex_Main "HOL-Library.Word"
begin

section \<open>SwiftAid: route animator, session phases and audio bridge\<close>

text \<open>
  A shallow embedding of \<^verbatim>\<open>src/index.tsx\<close>. JavaScript numbers are modelled as
  exact reals: rounding of IEEE doubles is not part of the model. Every \<^verbatim>\<open>useState\<close>
  cell of the component is a field of the record \<open>app\<close>; a state setter is a record
  update; a timer callback is a function on the state.
\<close>

subsection \<open>Audio bridge: sample conversion\<close>

text \<open>
  Capture path (\<^verbatim>\<open>onaudioprocess\<close>): \<^verbatim>\<open>int16[i] = inputData[i] * 32768\<close>. Storing a
  number into an \<^verbatim>\<open>Int16Array\<close> applies ECMAScript ToInt16: truncate towards zero,
  reduce modulo \<open>2^16\<close>, read as two's complement. The multiplication by a power of
  two is exact on floats, so the real product is what the code computes.
\<close>

type_synonym int16 = "16 word"

definition js_trunc :: "real \<Rightarrow> int" where
  "js_trunc v = (if 0 \<le> v then \<lfloor>v\<rfloor> else \<lceil>v\<rceil>)"

definition to_int16 :: "real \<Rightarrow> int16" where
  "to_int16 v = word_of_int (js_trunc v)"

definition encode_sample :: "real \<Rightarrow> int16" where
  "encode_sample x = to_int16 (x * 32768)"

text \<open>Playback path (\<^verbatim>\<open>onmessage\<close>): \<^verbatim>\<open>channelData[i] = dataInt16[i] / 32768.0\<close>.\<close>

definition decode_sample :: "int16 \<Rightarrow> real" where
  "decode_sample w = real_of_int (sint w) / 32768"

text \<open>The two loops, over a whole block.\<close>

definition encode_block :: "real list \<Rightarrow> int16 list" where
  "encode_block inputData = map encode_sample inputData"

definition decode_block :: "int16 list \<Rightarrow> real list" where
  "decode_block dataInt16 = map decode_sample dataInt16"

subsection \<open>Audio bridge: playback scheduling\<close>

text \<open>
  \<^verbatim>\<open>onmessage\<close>. The payload is the byte string that \<^verbatim>\<open>atob\<close> returns (absent when the
  message carries no inline data). The guard of the handler skips an absent or empty
  payload; \<^verbatim>\<open>new Int16Array(bytes.buffer)\<close> throws a RangeError on an odd byte length,
  before anything is scheduled. Otherwise the bytes are read as 16-bit samples, the
  buffer lasts \<open>length / OUTPUT_SAMPLE_RATE\<close> seconds, and the source is started at
  \<open>max nextStartTime currentTime\<close>. The list \<open>started\<close> records every call of
  \<^verbatim>\<open>s.start\<close>: the clock read, the start time and the buffer's duration.
\<close>

definition SAMPLE_RATE :: nat where
  "SAMPLE_RATE = 16000"

definition OUTPUT_SAMPLE_RATE :: nat where
  "OUTPUT_SAMPLE_RATE = 24000"

fun int16_of_bytes :: "8 word list \<Rightarrow> int16 list" where
  "int16_of_bytes (lo # hi # bs) = word_cat hi lo # int16_of_bytes bs"
| "int16_of_bytes bs = []"

record scheduled =
  clock :: real
  start_time :: real
  duration :: real

record playback =
  nextStartTime :: real
  started :: "scheduled list"

definition initial_playback :: playback where
  "initial_playback = \<lparr>nextStartTime = 0, started = []\<rparr>"

definition schedule_buffer :: "real \<Rightarrow> int16 list \<Rightarrow> playback \<Rightarrow> playback" where
  "schedule_buffer currentTime dataInt16 p =
     (let buffer_duration = real (length dataInt16) / real OUTPUT_SAMPLE_RATE;
          t = max (nextStartTime p) currentTime
      in p\<lparr>nextStartTime := t + buffer_duration,
            started := started p @
              [\<lparr>clock = currentTime, start_time = t, duration = buffer_duration\<rparr>]\<rparr>)"

definition onmessage :: "real \<Rightarrow> 8 word list option \<Rightarrow> playback \<Rightarrow> playback" where
  "onmessage currentTime data p =
     (case data of
        None \<Rightarrow> p
      | Some bytes \<Rightarrow>
          if bytes = [] then p
          else if odd (length bytes) then p
          else schedule_buffer currentTime (int16_of_bytes bytes) p)"

fun receive :: "(real \<times> 8 word list option) list \<Rightarrow> playback \<Rightarrow> playback" where
  "receive [] p = p"
| "receive ((currentTime, data) # msgs) p = receive msgs (onmessage currentTime data p)"

text \<open>No overlap: every source starts at or after the end of the one before it.\<close>

fun sequential :: "scheduled list \<Rightarrow> bool" where
  "sequential (a # b # rest) =
     (start_time a + duration a \<le> start_time b \<and> sequential (b # rest))"
| "sequential rest = True"

definition not_before_clock :: "scheduled list \<Rightarrow> bool" where
  "not_before_clock entries = list_all (\<lambda>e. clock e \<le> start_time e) entries"

text \<open>
  The scheduling invariant: the log is sequential, no source starts before the clock read
  at its scheduling, and the cursor is at or after the end of the last source.
\<close>

definition cursor_ok :: "playback \<Rightarrow> bool" where
  "cursor_ok p =
     (sequential (started p) \<and> not_before_clock (started p) \<and>
      (started p \<noteq> [] \<longrightarrow>
         start_time (last (started p)) + duration (last (started p)) \<le> nextStartTime p))"

subsection \<open>Audio bridge: call initialisation\<close>

text \<open>
  \<^verbatim>\<open>initLiveSession\<close>. The credential is \<^verbatim>\<open>process.env.API_KEY\<close>: undefined or a
  string, falsy when undefined or empty. The resources the function acquires are logged
  in order. \<open>granted\<close> says whether \<^verbatim>\<open>getUserMedia\<close> resolves; when it rejects, the
  \<^verbatim>\<open>catch\<close> block logs the error and nothing is connected.
\<close>

datatype resource =
  GenAIClient
  | AudioContext nat
  | UserMedia bool
  | LiveConnect
  | ConsoleError

record bridge =
  audioContextRef :: "nat option"
  outputAudioContextRef :: "nat option"
  acquired :: "resource list"

definition initial_bridge :: bridge where
  "initial_bridge = \<lparr>audioContextRef = None, outputAudioContextRef = None, acquired = []\<rparr>"

definition falsy :: "string option \<Rightarrow> bool" where
  "falsy k = (case k of None \<Rightarrow> True | Some v \<Rightarrow> v = [])"

definition initLiveSession :: "string option \<Rightarrow> bool \<Rightarrow> bool \<Rightarrow> bridge \<Rightarrow> bridge" where
  "initLiveSession API_KEY isVideoActive' granted b =
     (if falsy API_KEY then b
      else
        let b1 = b\<lparr>audioContextRef := Some SAMPLE_RATE,
                    outputAudioContextRef := Some OUTPUT_SAMPLE_RATE,
                    acquired := acquired b @
                      [GenAIClient, AudioContext SAMPLE_RATE, AudioContext OUTPUT_SAMPLE_RATE,
                       UserMedia isVideoActive']\<rparr>
        in if granted then b1\<lparr>acquired := acquired b1 @ [LiveConnect]\<rparr>
           else b1\<lparr>acquired := acquired b1 @ [ConsoleError]\<rparr>)"

subsection \<open>Geo-bearing utility\<close>

text \<open>
  \<^verbatim>\<open>Math.atan2\<close> on reals, by the quadrant of \<open>(x, y)\<close>, and the remainder operator
  \<^verbatim>\<open>%\<close>, whose result has the sign of the dividend.
\<close>

type_synonym coord = "real \<times> real"

definition atan2 :: "real \<Rightarrow> real \<Rightarrow> real" where
  "atan2 y x =
     (if 0 < x then arctan (y / x)
      else if x < 0 then (if 0 \<le> y then arctan (y / x) + pi else arctan (y / x) - pi)
      else if 0 < y then pi / 2
      else if y < 0 then - (pi / 2)
      else 0)"

definition js_rem :: "real \<Rightarrow> real \<Rightarrow> real" where
  "js_rem a n = a - n * real_of_int (js_trunc (a / n))"

definition getBearing :: "coord \<Rightarrow> coord \<Rightarrow> real" where
  "getBearing start end' =
     (let startLat = fst start * pi / 180;
          startLng = snd start * pi / 180;
          endLat = fst end' * pi / 180;
          endLng = snd end' * pi / 180;
          dLng = endLng - startLng;
          y = sin dLng * cos endLat;
          x = cos startLat * sin endLat - sin startLat * cos endLat * cos dLng
      in js_rem (atan2 y x * 180 / pi + 360) 360)"

subsection \<open>Component state\<close>

datatype app_state = Idle | Emergency | Active

record first_aid_tip =
  title :: string
  instruction :: string
  category :: string

record app =
  appState :: app_state
  isIncomingCall :: bool
  isCalling :: bool
  isVideoActive :: bool
  eta :: int
  location :: coord
  ambulancePos :: coord
  ambulanceBearing :: real
  isFollowingAmbulance :: bool
  fullRoute :: "coord list"
  currentRouteIndex :: nat
  progressInSegment :: real
  aiSuggestions :: "first_aid_tip list"

definition initial_app :: app where
  "initial_app =
     \<lparr>appState = Idle, isIncomingCall = False, isCalling = False, isVideoActive = False,
      eta = 7, location = (51.505, - 0.09), ambulancePos = (51.515, - 0.11),
      ambulanceBearing = 0, isFollowingAmbulance = True, fullRoute = [],
      currentRouteIndex = 0, progressInSegment = 0, aiSuggestions = []\<rparr>"

text \<open>The geolocation callback: the mocked five-point route towards the user.\<close>

definition mock_route :: "coord \<Rightarrow> coord list" where
  "mock_route userLoc =
     (let startLat = fst userLoc + 0.015;
          startLng = snd userLoc + 0.015
      in [(startLat, startLng),
          (startLat, snd userLoc + 0.01),
          (fst userLoc + 0.005, snd userLoc + 0.01),
          (fst userLoc + 0.005, snd userLoc),
          userLoc])"

definition getCurrentPosition :: "coord \<Rightarrow> app \<Rightarrow> app" where
  "getCurrentPosition userLoc s =
     s\<lparr>location := userLoc, fullRoute := mock_route userLoc,
       ambulancePos := hd (mock_route userLoc)\<rparr>"

subsection \<open>Route animator\<close>

text \<open>
  The animation effect installs its interval only while the phase is active and a next
  segment exists; it is torn down and re-evaluated whenever the phase, the index or the
  route changes. \<open>ticking\<close> is that guard, \<open>interval_callback\<close> the body of the
  interval (only ever run under the guard, where both waypoints exist), \<open>tick\<close> one
  period of the timer.
\<close>

definition stepSize :: real where
  "stepSize = 0.002"

definition ticking :: "app \<Rightarrow> bool" where
  "ticking s =
     (appState s = Active \<and> int (currentRouteIndex s) < int (length (fullRoute s)) - 1)"

definition interval_callback :: "app \<Rightarrow> app" where
  "interval_callback s =
     (let start = fullRoute s ! currentRouteIndex s;
          end' = fullRoute s ! (currentRouteIndex s + 1);
          nextProgress = progressInSegment s + stepSize
      in if 1 \<le> nextProgress
         then s\<lparr>currentRouteIndex := currentRouteIndex s + 1, progressInSegment := 0\<rparr>
         else
           let lat = fst start + (fst end' - fst start) * nextProgress;
               lng = snd start + (snd end' - snd start) * nextProgress;
               remainingSegments = int (length (fullRoute s)) - 1 - int (currentRouteIndex s)
           in s\<lparr>ambulancePos := (lat, lng),
                 ambulanceBearing := getBearing start end',
                 eta := max 1 \<lceil>(real_of_int remainingSegments - 1 + (1 - nextProgress)) * 3\<rceil>,
                 progressInSegment := nextProgress\<rparr>)"

definition tick :: "app \<Rightarrow> app" where
  "tick s = (if ticking s then interval_callback s else s)"

fun ticks :: "nat \<Rightarrow> app \<Rightarrow> app" where
  "ticks 0 s = s"
| "ticks (Suc n) s = tick (ticks n s)"

text \<open>Linear interpolation on a segment, as the claims state it.\<close>

definition lerp :: "coord \<Rightarrow> coord \<Rightarrow> real \<Rightarrow> coord" where
  "lerp A B p = (fst A + (fst B - fst A) * p, snd A + (snd B - snd A) * p)"

text \<open>
  The pose invariant: the progress fraction stays in \<open>[0, 1)\<close>, and whenever it is
  positive the position is the interpolation on the current segment.
\<close>

definition pose_ok :: "app \<Rightarrow> bool" where
  "pose_ok s =
     (0 \<le> progressInSegment s \<and> progressInSegment s < 1 \<and>
      (0 < progressInSegment s \<longrightarrow>
         currentRouteIndex s + 1 < length (fullRoute s) \<and>
         ambulancePos s =
           lerp (fullRoute s ! currentRouteIndex s) (fullRoute s ! (currentRouteIndex s + 1))
             (progressInSegment s)))"

text \<open>
  The ETA as the specification words it, with \<open>length - 2 - index\<close> full segments after
  the current one, and the invariant that relates the displayed ETA to it.
\<close>

definition eta_formula :: "app \<Rightarrow> int" where
  "eta_formula s =
     max 1 \<lceil>(real_of_int (int (length (fullRoute s)) - 2 - int (currentRouteIndex s))
              + (1 - progressInSegment s)) * 3\<rceil>"

definition eta_ok :: "app \<Rightarrow> bool" where
  "eta_ok s =
     (0 \<le> progressInSegment s \<and> progressInSegment s < 1 \<and> 1 \<le> eta s \<and>
      eta_formula s \<le> eta s \<and> (0 < progressInSegment s \<longrightarrow> eta s = eta_formula s))"

text \<open>A three-point route in the active phase, for concrete runs.\<close>

definition demo_route :: "coord list" where
  "demo_route = [(0, 0), (1, 0), (1, 1)]"

definition demo_app :: app where
  "demo_app = initial_app\<lparr>appState := Active, fullRoute := demo_route, ambulancePos := (0, 0)\<rparr>"

text \<open>The active phase on the route generated for a user at \<open>(0, 0)\<close>.\<close>

definition located_app :: app where
  "located_app = (getCurrentPosition (0, 0) initial_app)\<lparr>appState := Active\<rparr>"

subsection \<open>Session phases and timers\<close>

text \<open>
  \<^verbatim>\<open>setTimeout\<close> is modelled by a list of pending timeouts, each with its due time in
  milliseconds and the callback it runs. \<open>elapse\<close> lets time pass and runs the due
  callbacks in order of their due times (registration order among equals); a callback
  runs at its due time.
\<close>

datatype timer_action = DispatchConfirmed | IncomingCall

record sys =
  ui :: app
  now :: nat
  timeouts :: "(nat \<times> timer_action) list"

definition initial_sys :: sys where
  "initial_sys = \<lparr>ui = initial_app, now = 0, timeouts = []\<rparr>"

definition setTimeout :: "timer_action \<Rightarrow> nat \<Rightarrow> sys \<Rightarrow> sys" where
  "setTimeout a delay w = w\<lparr>timeouts := timeouts w @ [(now w + delay, a)]\<rparr>"

definition guidance_tips :: "first_aid_tip list" where
  "guidance_tips =
     [\<lparr>title = ''Apply Direct Pressure'',
       instruction = ''Use the cleanest available cloth and push down hard on the wound.'',
       category = ''Trauma''\<rparr>,
      \<lparr>title = ''Elevate Area'',
       instruction = ''If possible, keep the injured limb above the level of the heart.'',
       category = ''Trauma''\<rparr>,
      \<lparr>title = ''Monitor Airways'',
       instruction = ''Ensure the patient's mouth is clear and they are breathing steadily.'',
       category = ''Critical''\<rparr>]"

definition triggerSOS :: "sys \<Rightarrow> sys" where
  "triggerSOS w = setTimeout DispatchConfirmed 2500 (w\<lparr>ui := (ui w)\<lparr>appState := Emergency\<rparr>\<rparr>)"

fun fire :: "timer_action \<Rightarrow> sys \<Rightarrow> sys" where
  "fire DispatchConfirmed w =
     setTimeout IncomingCall 3000
       (w\<lparr>ui := (ui w)\<lparr>appState := Active, aiSuggestions := guidance_tips\<rparr>\<rparr>)"
| "fire IncomingCall w = w\<lparr>ui := (ui w)\<lparr>isIncomingCall := True\<rparr>\<rparr>"

text \<open>The SOS button is rendered in the idle view only.\<close>

definition click_SOS :: "sys \<Rightarrow> sys" where
  "click_SOS w = (if appState (ui w) = Idle then triggerSOS w else w)"

fun next_due :: "nat \<Rightarrow> (nat \<times> timer_action) list \<Rightarrow> (nat \<times> timer_action) option" where
  "next_due t [] = None"
| "next_due t ((d, a) # rest) =
     (case next_due t rest of
        None \<Rightarrow> (if d \<le> t then Some (d, a) else None)
      | Some (d', a') \<Rightarrow> (if d \<le> d' then Some (d, a) else Some (d', a')))"

fun weight :: "nat \<times> timer_action \<Rightarrow> nat" where
  "weight (d, DispatchConfirmed) = 2"
| "weight (d, IncomingCall) = 1"

function run_until :: "nat \<Rightarrow> sys \<Rightarrow> sys" where
  "run_until t w =
     (case next_due t (timeouts w) of
        None \<Rightarrow> w\<lparr>now := t\<rparr>
      | Some (d, a) \<Rightarrow>
          run_until t (fire a (w\<lparr>now := d, timeouts := remove1 (d, a) (timeouts w)\<rparr>)))"
  by pat_completeness auto

text \<open>
  Termination: a callback registers at most one further timeout, of a lighter kind than
  the one it replaces.
\<close>

lemma next_due_mem: "next_due t xs = Some x \<Longrightarrow> x \<in> set xs"
  by (induction xs arbitrary: x) (auto split: option.splits if_splits)

lemma sum_weight_remove1:
  "x \<in> set xs \<Longrightarrow> sum_list (map weight (remove1 x xs)) + weight x = sum_list (map weight xs)"
  by (induction xs) auto

termination run_until
proof (relation "measure (\<lambda>(t, w). sum_list (map weight (timeouts w)))")
  show "wf (measure (\<lambda>(t, w). sum_list (map weight (timeouts w))))"
    by simp
next
  fix t :: nat and w :: sys and x2 :: "nat \<times> timer_action" and d :: nat and a :: timer_action
  assume nd: "next_due t (timeouts w) = Some x2" and x2: "(d, a) = x2"
  have mem: "(d, a) \<in> set (timeouts w)"
    using nd x2 by (simp add: next_due_mem)
  have eq: "sum_list (map weight (remove1 (d, a) (timeouts w))) + weight (d, a)
      = sum_list (map weight (timeouts w))"
    using mem by (rule sum_weight_remove1)
  have "sum_list (map weight (timeouts (fire a (w\<lparr>now := d, timeouts := remove1 (d, a) (timeouts w)\<rparr>))))
      < sum_list (map weight (timeouts w))"
    using eq by (cases a) (simp_all add: setTimeout_def)
  then show "((t, fire a (w\<lparr>now := d, timeouts := remove1 (d, a) (timeouts w)\<rparr>)), (t, w))
      \<in> measure (\<lambda>(t, w). sum_list (map weight (timeouts w)))"
    by simp
qed

declare run_until.simps [simp del]

definition elapse :: "nat \<Rightarrow> sys \<Rightarrow> sys" where
  "elapse dt w = run_until (now w + dt) w"

definition phase_rank :: "app_state \<Rightarrow> nat" where
  "phase_rank ph = (case ph of Idle \<Rightarrow> 0 | Emergency \<Rightarrow> 1 | Active \<Rightarrow> 2)"

text \<open>The state 2500 ms after an SOS tap on the initial state: the active phase.\<close>

definition active_sys :: sys where
  "active_sys = elapse 2500 (triggerSOS initial_sys)"

section \<open>Properties\<close>

subsection \<open>Bearing\<close>

lemma js_rem_nonneg:
  assumes "0 \<le> a"
  shows "0 \<le> js_rem a 360" "js_rem a 360 < 360"
proof -
  have t: "js_trunc (a / 360) = \<lfloor>a / 360\<rfloor>"
    using assms by (simp add: js_trunc_def)
  have "real_of_int \<lfloor>a / 360\<rfloor> \<le> a / 360" "a / 360 < real_of_int \<lfloor>a / 360\<rfloor> + 1"
    by linarith+
  then show "0 \<le> js_rem a 360" "js_rem a 360 < 360"
    unfolding js_rem_def t by linarith+
qed

lemma js_rem_wrap:
  assumes "0 \<le> d" "d < 360"
  shows "js_rem (d + 360) 360 = d"
proof -
  have "\<lfloor>(d + 360) / 360\<rfloor> = 1"
    using assms by (intro floor_unique) simp_all
  then show ?thesis
    using assms by (simp add: js_rem_def js_trunc_def)
qed

lemma js_rem_keep:
  assumes "- 360 < d" "d < 0"
  shows "js_rem (d + 360) 360 = d + 360"
proof -
  have "\<lfloor>(d + 360) / 360\<rfloor> = 0"
    using assms by (intro floor_unique) simp_all
  then show ?thesis
    using assms by (simp add: js_rem_def js_trunc_def)
qed

lemma atan2_bounds: "- pi \<le> atan2 y x" "atan2 y x \<le> pi"
proof -
  have b: "- (pi / 2) < arctan (y / x)" "arctan (y / x) < pi / 2"
    by (rule arctan_lbound, rule arctan_ubound)
  have neg: "arctan (y / x) \<le> 0" if "x < 0" "0 \<le> y"
  proof -
    have "y / x \<le> 0" using that by (simp add: divide_le_0_iff)
    then show ?thesis by (simp add: arctan_le_zero_iff)
  qed
  have pos: "0 < arctan (y / x)" if "x < 0" "y < 0"
  proof -
    have "0 < y / x" using that by (simp add: zero_less_divide_iff)
    then show ?thesis by (simp add: zero_less_arctan_iff)
  qed
  have p: "0 < pi" by simp
  show "- pi \<le> atan2 y x"
    unfolding atan2_def using b neg pos p by (auto split: if_splits; linarith)
  show "atan2 y x \<le> pi"
    unfolding atan2_def using b neg pos p by (auto split: if_splits; linarith)
qed


lemma getBearing_eq:
  "getBearing (a1, a2) (b1, b2) =
     js_rem (atan2 (sin (b2 * pi / 180 - a2 * pi / 180) * cos (b1 * pi / 180))
               (cos (a1 * pi / 180) * sin (b1 * pi / 180)
                 - sin (a1 * pi / 180) * cos (b1 * pi / 180) * cos (b2 * pi / 180 - a2 * pi / 180))
             * 180 / pi + 360) 360"
  by (simp add: getBearing_def Let_def)

lemma bearing_range: "0 \<le> getBearing A B \<and> getBearing A B < 360"
proof -
  obtain \<theta> where g: "getBearing A B = js_rem (\<theta> * 180 / pi + 360) 360" and "- pi \<le> \<theta>"
    using atan2_bounds(1) by (cases A, cases B) (auto simp: getBearing_eq)
  have "- 1 \<le> \<theta> / pi"
    using \<open>- pi \<le> \<theta>\<close> by (simp add: le_divide_eq)
  then have "0 \<le> 180 * (\<theta> / pi) + 360"
    by linarith
  moreover have eq: "\<theta> * 180 / pi = 180 * (\<theta> / pi)"
    by simp
  ultimately have "0 \<le> \<theta> * 180 / pi + 360"
    by (simp only: eq)
  then show ?thesis
    unfolding g by (simp add: js_rem_nonneg)
qed

lemma meridian_bearing:
  assumes "0 < d" "d < 180"
  shows "getBearing (lat, lng) (lat + d, lng) = 0" "getBearing (lat, lng) (lat - d, lng) = 180"
proof -
  let ?s = "lat * pi / 180" and ?r = "d * pi / 180"
  have r: "0 < ?r" "?r < pi"
    using assms by simp_all
  have up: "(lat + d) * pi / 180 = ?s + ?r" and down: "(lat - d) * pi / 180 = ?s - ?r"
    by (simp_all add: algebra_simps add_divide_distrib diff_divide_distrib)
  have "cos ?s * sin (?s + ?r) - sin ?s * cos (?s + ?r) = sin ?r"
    using sin_diff [of "?s + ?r" ?s] by (simp add: algebra_simps)
  moreover have "0 < sin ?r"
    using r by (rule sin_gt_zero)
  ultimately have n: "atan2 0 (cos ?s * sin (?s + ?r) - sin ?s * cos (?s + ?r)) = 0"
    by (simp add: atan2_def)
  have "cos ?s * sin (?s - ?r) - sin ?s * cos (?s - ?r) = - sin ?r"
    using sin_diff [of "?s - ?r" ?s] by (simp add: algebra_simps)
  moreover have "0 < sin ?r"
    using r by (rule sin_gt_zero)
  ultimately have s: "atan2 0 (cos ?s * sin (?s - ?r) - sin ?s * cos (?s - ?r)) = pi"
    by (simp add: atan2_def)
  show "getBearing (lat, lng) (lat + d, lng) = 0"
    unfolding getBearing_eq up using n js_rem_wrap [of 0] by simp
  have "js_rem (180 + 360) 360 = 180"
    by (rule js_rem_wrap) simp_all
  then show "getBearing (lat, lng) (lat - d, lng) = 180"
    unfolding getBearing_eq down using s by simp
qed

lemma equator_bearing:
  assumes "0 < d" "d < 180"
  shows "getBearing (0, lng) (0, lng + d) = 90" "getBearing (0, lng) (0, lng - d) = 270"
proof -
  let ?r = "d * pi / 180"
  have r: "0 < ?r" "?r < pi"
    using assms by simp_all
  have pos: "0 < sin ?r"
    using r by (rule sin_gt_zero)
  have e: "(lng + d) * pi / 180 - lng * pi / 180 = ?r"
    and w: "(lng - d) * pi / 180 - lng * pi / 180 = - ?r"
    by (simp_all add: algebra_simps add_divide_distrib diff_divide_distrib)
  have "js_rem (90 + 360) 360 = 90"
    by (rule js_rem_wrap) simp_all
  then show "getBearing (0, lng) (0, lng + d) = 90"
    unfolding getBearing_eq e using pos by (simp add: atan2_def)
  have "js_rem (- 90 + 360) 360 = - 90 + 360"
    by (rule js_rem_keep) simp_all
  then show "getBearing (0, lng) (0, lng - d) = 270"
    unfolding getBearing_eq w using pos by (simp add: atan2_def)
qed


lemma first_quadrant_bearing:
  assumes "0 < x" "0 \<le> y"
  shows "js_rem (atan2 y x * 180 / pi + 360) 360 = arctan (y / x) * 180 / pi"
    and "arctan (y / x) * 180 / pi < 90"
proof -
  have "0 \<le> y / x"
    using assms by simp
  then have lo: "0 \<le> arctan (y / x)"
    by (simp add: zero_le_arctan_iff)
  have hi: "arctan (y / x) < pi / 2"
    by (rule arctan_ubound)
  have eq: "arctan (y / x) * 180 / pi = 180 * (arctan (y / x) / pi)"
    by simp
  have "0 \<le> arctan (y / x) / pi" "arctan (y / x) / pi < 1 / 2"
    using lo hi by (simp_all add: divide_less_eq)
  then have d: "0 \<le> 180 * (arctan (y / x) / pi)" "180 * (arctan (y / x) / pi) < 90"
    by linarith+
  show "arctan (y / x) * 180 / pi < 90"
    using d(2) by (simp only: eq)
  have w: "js_rem (180 * (arctan (y / x) / pi) + 360) 360 = 180 * (arctan (y / x) / pi)"
    using d by (intro js_rem_wrap) linarith+
  have a: "atan2 y x = arctan (y / x)"
    using assms(1) by (simp add: atan2_def)
  show "js_rem (atan2 y x * 180 / pi + 360) 360 = arctan (y / x) * 180 / pi"
    unfolding a eq by (rule w)
qed

lemma bearing_diagonal_30: "getBearing (0, 0) (30, 30) = arctan (sqrt 3 / 2) * 180 / pi"
proof -
  have "getBearing (0, 0) (30, 30) = js_rem (atan2 (sqrt 3 / 4) (1 / 2) * 180 / pi + 360) 360"
    by (simp add: getBearing_eq sin_30 cos_30)
  also have "\<dots> = arctan ((sqrt 3 / 4) / (1 / 2)) * 180 / pi"
    by (rule first_quadrant_bearing) simp_all
  finally show ?thesis
    by simp
qed

lemma bearing_diagonal_60: "getBearing (0, 0) (60, 60) = arctan (1 / 2) * 180 / pi"
proof -
  have "getBearing (0, 0) (60, 60) = js_rem (atan2 (sqrt 3 / 4) (sqrt 3 / 2) * 180 / pi + 360) 360"
    by (simp add: getBearing_eq sin_60 cos_60)
  also have "\<dots> = arctan ((sqrt 3 / 4) / (sqrt 3 / 2)) * 180 / pi"
    by (rule first_quadrant_bearing) simp_all
  finally show ?thesis
    by simp
qed

lemma bearing_east_45: "getBearing (45, 0) (45, 90) < 90"
proof -
  have "cos (pi / 4) * sin (pi / 4) = 1 / 2"
    by (simp add: sin_45 cos_45)
  then have "getBearing (45, 0) (45, 90) = js_rem (atan2 (sqrt 2 / 2) (1 / 2) * 180 / pi + 360) 360"
    by (simp add: getBearing_eq cos_45)
  also have "\<dots> = arctan ((sqrt 2 / 2) / (1 / 2)) * 180 / pi"
    by (rule first_quadrant_bearing) simp_all
  also have "\<dots> < 90"
    by (rule first_quadrant_bearing) simp_all
  finally show ?thesis .
qed

text \<open>
  C6 as stated fails twice. Doubling the segment from \<open>(0,0)\<close> to \<open>(30,30)\<close> about its
  start changes the bearing (from \<open>arctan (sqrt 3 / 2)\<close> to \<open>arctan (1 / 2)\<close>, in degrees),
  and the due-east segment from \<open>(45,0)\<close> to \<open>(45,90)\<close> has a bearing below 90.
\<close>

theorem bearing_not_planar:
  "getBearing (0, 0) (60, 60) \<noteq> getBearing (0, 0) (30, 30) \<and> getBearing (45, 0) (45, 90) \<noteq> 90"
proof -
  have "sqrt 3 / 2 \<noteq> 1 / 2"
    by simp
  then have "arctan (1 / 2) \<noteq> arctan (sqrt 3 / 2)"
    by (simp only: arctan_eq_iff)
  then have "getBearing (0, 0) (60, 60) \<noteq> getBearing (0, 0) (30, 30)"
    by (simp add: bearing_diagonal_30 bearing_diagonal_60)
  then show ?thesis
    using bearing_east_45 by simp
qed

text \<open>
  C6 (amended). The bearing is always in \<open>[0, 360)\<close>. A segment along a meridian, of
  less than 180 degrees, has bearing exactly 0 northwards and 180 southwards; a segment
  along the equator, of less than 180 degrees, has bearing exactly 90 eastwards and 270
  westwards.
\<close>

theorem bearing_range_and_cardinals:
  "0 \<le> getBearing A B \<and> getBearing A B < 360
   \<and> (0 < d \<and> d < 180 \<longrightarrow>
        getBearing (lat, lng) (lat + d, lng) = 0
        \<and> getBearing (lat, lng) (lat - d, lng) = 180
        \<and> getBearing (0, lng) (0, lng + d) = 90
        \<and> getBearing (0, lng) (0, lng - d) = 270)"
  using bearing_range [of A B] meridian_bearing [of d lat lng] equator_bearing [of d lng]
  by blast

theorem bearing_range_and_cardinals_witness:
  "getBearing (10, 20) (11, 20) = 0 \<and> getBearing (10, 20) (9, 20) = 180
   \<and> getBearing (0, 20) (0, 21) = 90 \<and> getBearing (0, 20) (0, 19) = 270
   \<and> getBearing (45, 0) (45, 90) < 360"
proof -
  have "(0 :: real) < 1 \<and> (1 :: real) < 180"
    by simp
  then show ?thesis
    using bearing_range_and_cardinals [of "(45, 0)" "(45, 90)" 1 10 20] by simp
qed

subsection \<open>Route animator\<close>

lemma ticks_add: "ticks (m + n) s = ticks m (ticks n s)"
  by (induction m) simp_all

lemma tick_boundary:
  "ticking s \<Longrightarrow> 1 \<le> progressInSegment s + stepSize \<Longrightarrow>
   tick s = s\<lparr>currentRouteIndex := currentRouteIndex s + 1, progressInSegment := 0\<rparr>"
  by (simp add: tick_def interval_callback_def Let_def)

lemma tick_interior:
  "ticking s \<Longrightarrow> progressInSegment s + stepSize < 1 \<Longrightarrow>
   tick s = s\<lparr>ambulancePos :=
                lerp (fullRoute s ! currentRouteIndex s) (fullRoute s ! (currentRouteIndex s + 1))
                  (progressInSegment s + stepSize),
              ambulanceBearing :=
                getBearing (fullRoute s ! currentRouteIndex s) (fullRoute s ! (currentRouteIndex s + 1)),
              eta := max 1 \<lceil>(real_of_int (int (length (fullRoute s)) - 1 - int (currentRouteIndex s))
                        - 1 + (1 - (progressInSegment s + stepSize))) * 3\<rceil>,
              progressInSegment := progressInSegment s + stepSize\<rparr>"
proof -
  assume run: "ticking s" and lt: "progressInSegment s + stepSize < 1"
  from lt have no: "\<not> 1 \<le> progressInSegment s + stepSize"
    by simp
  show ?thesis
    unfolding tick_def interval_callback_def Let_def lerp_def
    using run no by (simp only: if_True if_False)
qed

lemma tick_idle: "\<not> ticking s \<Longrightarrow> tick s = s"
  by (simp add: tick_def)

lemma ticks_idle: "\<not> ticking s \<Longrightarrow> ticks n s = s"
  by (induction n) (simp_all add: tick_idle)

lemma ticks_index_progress:
  assumes "appState s = Active" "currentRouteIndex s = 0" "progressInSegment s = 0"
    and "k \<le> 500 * (length (fullRoute s) - 1)"
  shows "appState (ticks k s) = Active \<and> fullRoute (ticks k s) = fullRoute s
    \<and> currentRouteIndex (ticks k s) = k div 500
    \<and> progressInSegment (ticks k s) = real (k mod 500) / 500"
  using assms(4)
proof (induction k)
  case 0
  show ?case using assms(1-3) by simp
next
  case (Suc k)
  let ?t = "ticks k s"
  from Suc have IH: "appState ?t = Active" "fullRoute ?t = fullRoute s"
    "currentRouteIndex ?t = k div 500" "progressInSegment ?t = real (k mod 500) / 500"
    and k: "k < 500 * (length (fullRoute s) - 1)"
    by simp_all
  have idx: "k div 500 < length (fullRoute s) - 1"
    using k by (simp add: div_less_iff_less_mult) 
  have run: "ticking ?t"
    using IH idx by (simp add: ticking_def)
  show ?case
  proof (cases "k mod 500 = 499")
    case True
    then have "1 \<le> progressInSegment ?t + stepSize"
      by (simp add: IH stepSize_def)
    then have "tick ?t = ?t\<lparr>currentRouteIndex := currentRouteIndex ?t + 1, progressInSegment := 0\<rparr>"
      using run by (rule tick_boundary [rotated])
    moreover have "Suc k div 500 = k div 500 + 1" "Suc k mod 500 = 0"
      using True by (simp_all add: div_Suc mod_Suc)
    ultimately show ?thesis
      by (simp add: IH)
  next
    case False
    moreover have "k mod 500 < 500"
      by simp
    ultimately have lt: "k mod 500 < 499"
      by linarith
    then have "progressInSegment ?t + stepSize < 1"
      by (simp add: IH stepSize_def)
    note ti = tick_interior [OF run this]
    have "Suc k div 500 = k div 500" "Suc k mod 500 = k mod 500 + 1"
      using lt by (simp_all add: div_Suc mod_Suc)
    then show ?thesis
      by (simp add: IH ti stepSize_def add_divide_distrib)
  qed
qed


lemma ticks_stay: "\<not> ticking (ticks m s) \<Longrightarrow> m \<le> k \<Longrightarrow> ticks k s = ticks m s"
proof -
  assume stop: "\<not> ticking (ticks m s)" and "m \<le> k"
  then obtain d where "k = d + m"
    by (metis le_add_diff_inverse2)
  then show ?thesis
    using stop by (simp add: ticks_add ticks_idle)
qed

lemma ticks_final_pose:
  assumes "appState s = Active" "currentRouteIndex s = 0" "progressInSegment s = 0"
    and "2 \<le> length (fullRoute s)"
  shows "ambulancePos (ticks ((length (fullRoute s) - 1) * 500) s) =
    lerp (fullRoute s ! (length (fullRoute s) - 2)) (fullRoute s ! (length (fullRoute s) - 1))
      (499 / 500)"
proof -
  obtain m where len: "length (fullRoute s) = m + 2"
    using assms(4) by (metis add.commute le_Suc_ex)
  let ?k = "500 * m + 498"
  let ?t = "ticks ?k s"
  have "?k \<le> 500 * (length (fullRoute s) - 1)"
    by (simp add: len)
  from ticks_index_progress [OF assms(1-3) this]
  have st: "appState ?t = Active" "fullRoute ?t = fullRoute s" "currentRouteIndex ?t = m"
    "progressInSegment ?t = 498 / 500"
    by simp_all
  have run: "ticking ?t"
    using st by (simp add: ticking_def len)
  have lt: "progressInSegment ?t + stepSize < 1"
    using st by (simp add: stepSize_def)
  note t1 = tick_interior [OF run lt]
  let ?u = "tick ?t"
  have su: "appState ?u = Active" "fullRoute ?u = fullRoute s" "currentRouteIndex ?u = m"
    "progressInSegment ?u = 499 / 500"
    "ambulancePos ?u = lerp (fullRoute s ! m) (fullRoute s ! (m + 1)) (499 / 500)"
    by (simp_all add: t1 st stepSize_def)
  have run': "ticking ?u"
    using su by (simp add: ticking_def len)
  have ge: "1 \<le> progressInSegment ?u + stepSize"
    using su by (simp add: stepSize_def)
  have "ambulancePos (tick ?u) = ambulancePos ?u"
    by (simp add: tick_boundary [OF run' ge])
  then have "ambulancePos (tick ?u) = lerp (fullRoute s ! m) (fullRoute s ! (m + 1)) (499 / 500)"
    by (simp only: su)
  then have final: "ambulancePos (ticks (Suc (Suc ?k)) s) =
      lerp (fullRoute s ! m) (fullRoute s ! (m + 1)) (499 / 500)"
    by (simp only: ticks.simps)
  have a: "m + 2 - 2 = m" "m + 2 - 1 = m + 1" "(m + 1) * 500 = Suc (Suc ?k)"
    by simp_all
  show ?thesis
    unfolding len a by (rule final)
qed

text \<open>
  C2 (amended). From the start of an active run (index 0, progress 0) on a route of
  \<open>N \<ge> 2\<close> waypoints, the timer keeps ticking for every tick count below
  \<open>(N - 1) * 500\<close>; after exactly \<open>(N - 1) * 500\<close> ticks the segment index is that of the
  final waypoint, the guard of the timer is false, and further ticks change nothing. The
  vehicle is then at the point \<open>A + (B - A) * 0.998\<close> of the last segment \<open>[A, B]\<close>, where
  the last position update left it. A route of length 0 or 1 never ticks: the state does
  not change at all.
\<close>

theorem animator_halts_short_of_final_waypoint:
  "(appState s = Active \<and> currentRouteIndex s = 0 \<and> progressInSegment s = 0
      \<and> 2 \<le> length (fullRoute s) \<longrightarrow>
      (\<forall>k < (length (fullRoute s) - 1) * 500. ticking (ticks k s))
      \<and> currentRouteIndex (ticks ((length (fullRoute s) - 1) * 500) s) = length (fullRoute s) - 1
      \<and> progressInSegment (ticks ((length (fullRoute s) - 1) * 500) s) = 0
      \<and> \<not> ticking (ticks ((length (fullRoute s) - 1) * 500) s)
      \<and> (\<forall>k \<ge> (length (fullRoute s) - 1) * 500.
            ticks k s = ticks ((length (fullRoute s) - 1) * 500) s)
      \<and> ambulancePos (ticks ((length (fullRoute s) - 1) * 500) s) =
            lerp (fullRoute s ! (length (fullRoute s) - 2))
              (fullRoute s ! (length (fullRoute s) - 1)) (499 / 500))
   \<and> (currentRouteIndex s = 0 \<and> length (fullRoute s) \<le> 1 \<longrightarrow> (\<forall>k. ticks k s = s))"
proof (intro conjI impI)
  assume "currentRouteIndex s = 0 \<and> length (fullRoute s) \<le> 1"
  then have "\<not> ticking s"
    by (simp add: ticking_def)
  then show "\<forall>k. ticks k s = s"
    by (simp add: ticks_idle)
next
  let ?T = "(length (fullRoute s) - 1) * 500"
  assume a: "appState s = Active \<and> currentRouteIndex s = 0 \<and> progressInSegment s = 0
      \<and> 2 \<le> length (fullRoute s)"
  have cf: "appState (ticks k s) = Active \<and> fullRoute (ticks k s) = fullRoute s
    \<and> currentRouteIndex (ticks k s) = k div 500
    \<and> progressInSegment (ticks k s) = real (k mod 500) / 500" if "k \<le> ?T" for k
    using a that by (intro ticks_index_progress) (simp_all add: mult.commute)
  show "\<forall>k < ?T. ticking (ticks k s)"
  proof (intro allI impI)
    fix k assume k: "k < ?T"
    then have "k div 500 < length (fullRoute s) - 1"
      by (simp add: div_less_iff_less_mult)
    then show "ticking (ticks k s)"
      using cf [of k] k by (simp add: ticking_def)
  qed
  show idx: "currentRouteIndex (ticks ?T s) = length (fullRoute s) - 1"
    using cf [of ?T] by simp
  show "progressInSegment (ticks ?T s) = 0"
    using cf [of ?T] by simp
  show stop: "\<not> ticking (ticks ?T s)"
    using cf [of ?T] idx a by (simp add: ticking_def)
  show "\<forall>k \<ge> ?T. ticks k s = ticks ?T s"
    using stop by (blast intro: ticks_stay)
  show "ambulancePos (ticks ?T s) =
    lerp (fullRoute s ! (length (fullRoute s) - 2)) (fullRoute s ! (length (fullRoute s) - 1))
      (499 / 500)"
    using a by (intro ticks_final_pose) simp_all
qed

lemma demo_app_start:
  "appState demo_app = Active" "currentRouteIndex demo_app = 0" "progressInSegment demo_app = 0"
  "fullRoute demo_app = demo_route" "length demo_route = 3"
  by (simp_all add: demo_app_def demo_route_def initial_app_def)

text \<open>
  C2 as stated fails: on the three-point route the timer has stopped after 1000 ticks,
  with the vehicle at \<open>(1, 0.998)\<close> and the final waypoint at \<open>(1, 1)\<close>.
\<close>

theorem halts_before_final_waypoint:
  "\<not> ticking (ticks 1000 demo_app)
   \<and> ambulancePos (ticks 1000 demo_app) = (1, 499 / 500)
   \<and> last (fullRoute (ticks 1000 demo_app)) = (1, 1)
   \<and> ambulancePos (ticks 1000 demo_app) \<noteq> last (fullRoute (ticks 1000 demo_app))"
proof -
  have le: "(1000 :: nat) \<le> 500 * (length (fullRoute demo_app) - 1)"
    by (simp add: demo_app_start)
  from ticks_index_progress [OF demo_app_start(1-3) le]
  have st: "appState (ticks 1000 demo_app) = Active" "fullRoute (ticks 1000 demo_app) = demo_route"
    "currentRouteIndex (ticks 1000 demo_app) = 2"
    by (simp_all add: demo_app_start)
  have "2 \<le> length (fullRoute demo_app)"
    by (simp add: demo_app_start)
  from ticks_final_pose [OF demo_app_start(1-3) this]
  have pos: "ambulancePos (ticks 1000 demo_app) = (1, 499 / 500)"
    by (simp add: demo_app_start) (simp add: demo_route_def lerp_def)
  show ?thesis
    using st by (simp add: pos ticking_def demo_route_def)
qed

theorem animator_halts_short_of_final_waypoint_witness:
  "ticking (ticks 999 demo_app) \<and> currentRouteIndex (ticks 1000 demo_app) = 2
   \<and> \<not> ticking (ticks 1000 demo_app) \<and> ticks 1001 demo_app = ticks 1000 demo_app
   \<and> ambulancePos (ticks 1000 demo_app) = lerp (1, 0) (1, 1) (499 / 500)
   \<and> ticks 7 initial_app = initial_app"
proof -
  have pre: "appState demo_app = Active \<and> currentRouteIndex demo_app = 0
      \<and> progressInSegment demo_app = 0 \<and> 2 \<le> length (fullRoute demo_app)"
    by (simp add: demo_app_start)
  have len: "(length (fullRoute demo_app) - 1) * 500 = 1000"
    by (simp add: demo_app_start)
  have pre0: "currentRouteIndex initial_app = 0 \<and> length (fullRoute initial_app) \<le> 1"
    by (simp add: initial_app_def)
  from animator_halts_short_of_final_waypoint [of demo_app] pre
  have run: "(\<forall>k < 1000. ticking (ticks k demo_app))
      \<and> currentRouteIndex (ticks 1000 demo_app) = length (fullRoute demo_app) - 1
      \<and> progressInSegment (ticks 1000 demo_app) = 0
      \<and> \<not> ticking (ticks 1000 demo_app)
      \<and> (\<forall>k \<ge> 1000. ticks k demo_app = ticks 1000 demo_app)
      \<and> ambulancePos (ticks 1000 demo_app) =
            lerp (fullRoute demo_app ! (length (fullRoute demo_app) - 2))
              (fullRoute demo_app ! (length (fullRoute demo_app) - 1)) (499 / 500)"
    unfolding len by blast
  from run have r1: "\<forall>k < 1000. ticking (ticks k demo_app)"
    and r2: "currentRouteIndex (ticks 1000 demo_app) = length (fullRoute demo_app) - 1"
    and 3: "\<not> ticking (ticks 1000 demo_app)"
    and r4: "\<forall>k \<ge> 1000. ticks k demo_app = ticks 1000 demo_app"
    and r5: "ambulancePos (ticks 1000 demo_app) =
            lerp (fullRoute demo_app ! (length (fullRoute demo_app) - 2))
              (fullRoute demo_app ! (length (fullRoute demo_app) - 1)) (499 / 500)"
    by blast+
  from r1 have 1: "ticking (ticks 999 demo_app)"
    by simp
  from r2 have 2: "currentRouteIndex (ticks 1000 demo_app) = 2"
    by (simp add: demo_app_start)
  from r4 have "1000 \<le> (1001 :: nat) \<longrightarrow> ticks 1001 demo_app = ticks 1000 demo_app"
    by blast
  then have 4: "ticks 1001 demo_app = ticks 1000 demo_app"
    by simp
  from r5 have 5: "ambulancePos (ticks 1000 demo_app) = lerp (1, 0) (1, 1) (499 / 500)"
    by (simp add: demo_app_start) (simp add: demo_route_def)
  from animator_halts_short_of_final_waypoint [of initial_app] pre0
  have 6: "ticks 7 initial_app = initial_app"
    by blast
  from 1 2 3 4 5 6 show ?thesis
    by blast
qed

lemma tick_cases:
  obtains (idle) "\<not> ticking s" "tick s = s"
  | (boundary) "ticking s" "1 \<le> progressInSegment s + stepSize"
      "tick s = s\<lparr>currentRouteIndex := currentRouteIndex s + 1, progressInSegment := 0\<rparr>"
  | (interior) "ticking s" "progressInSegment s + stepSize < 1"
      "tick s = s\<lparr>ambulancePos :=
                lerp (fullRoute s ! currentRouteIndex s) (fullRoute s ! (currentRouteIndex s + 1))
                  (progressInSegment s + stepSize),
              ambulanceBearing :=
                getBearing (fullRoute s ! currentRouteIndex s) (fullRoute s ! (currentRouteIndex s + 1)),
              eta := max 1 \<lceil>(real_of_int (int (length (fullRoute s)) - 1 - int (currentRouteIndex s))
                        - 1 + (1 - (progressInSegment s + stepSize))) * 3\<rceil>,
              progressInSegment := progressInSegment s + stepSize\<rparr>"
  using tick_idle [of s] tick_boundary [of s] tick_interior [of s] by fastforce

lemma pose_ok_tick: "pose_ok s \<Longrightarrow> pose_ok (tick s)"
proof (cases s rule: tick_cases)
  case idle
  assume "pose_ok s"
  then show ?thesis by (simp add: idle)
next
  case boundary
  show ?thesis by (simp add: boundary pose_ok_def)
next
  case interior
  assume "pose_ok s"
  then have "0 \<le> progressInSegment s"
    by (simp add: pose_ok_def)
  moreover have "currentRouteIndex s + 1 < length (fullRoute s)"
    using interior(1) by (simp add: ticking_def)
  ultimately show ?thesis
    using interior(2) by (simp add: interior(3) pose_ok_def stepSize_def)
qed

lemma pose_ok_ticks: "progressInSegment s = 0 \<Longrightarrow> pose_ok (ticks k s)"
proof (induction k)
  case 0
  then show ?case by (simp add: pose_ok_def)
next
  case (Suc k)
  then show ?case by (simp add: pose_ok_tick)
qed

text \<open>
  C4 (amended). At every moment of a run that starts with progress 0, the progress
  fraction \<open>p\<close> is in \<open>[0, 1)\<close>, and whenever \<open>0 < p\<close> the reported position is
  \<open>A + (B - A) * p\<close> component-wise on the current segment \<open>[A, B]\<close>. At \<open>p = 0\<close> the
  position is not recomputed.
\<close>

theorem interpolated_position:
  assumes "progressInSegment s = 0"
  shows "0 \<le> progressInSegment (ticks k s) \<and> progressInSegment (ticks k s) < 1 \<and>
    (0 < progressInSegment (ticks k s) \<longrightarrow>
       currentRouteIndex (ticks k s) + 1 < length (fullRoute (ticks k s)) \<and>
       ambulancePos (ticks k s) =
         lerp (fullRoute (ticks k s) ! currentRouteIndex (ticks k s))
           (fullRoute (ticks k s) ! (currentRouteIndex (ticks k s) + 1))
           (progressInSegment (ticks k s)))"
  using pose_ok_ticks [OF assms, of k] unfolding pose_ok_def .

lemma demo_498:
  "appState (ticks 498 demo_app) = Active \<and> fullRoute (ticks 498 demo_app) = demo_route
    \<and> currentRouteIndex (ticks 498 demo_app) = 0
    \<and> progressInSegment (ticks 498 demo_app) = 498 / 500"
  using ticks_index_progress [of demo_app 498]
  by (simp add: demo_app_def initial_app_def demo_route_def)

lemma demo_499:
  "ticks 499 demo_app = (ticks 498 demo_app)
     \<lparr>ambulancePos := (499 / 500, 0),
      ambulanceBearing := getBearing (0, 0) (1, 0),
      eta := 4, progressInSegment := 499 / 500\<rparr>"
proof -
  let ?t = "ticks 498 demo_app"
  have run: "ticking ?t"
    using demo_498 by (simp add: ticking_def demo_route_def)
  have lt: "progressInSegment ?t + stepSize < 1"
    using demo_498 by (simp add: stepSize_def)
  have "ticks 499 demo_app = tick ?t"
    using ticks.simps(2) [of 498 demo_app] by simp
  then show ?thesis
    using demo_498 by (simp add: tick_interior [OF run lt] demo_route_def lerp_def stepSize_def)
qed

lemma demo_500:
  "ticks 500 demo_app = (ticks 499 demo_app)\<lparr>currentRouteIndex := 1, progressInSegment := 0\<rparr>"
proof -
  let ?t = "ticks 499 demo_app"
  have st: "appState ?t = Active" "fullRoute ?t = demo_route" "currentRouteIndex ?t = 0"
    "progressInSegment ?t = 499 / 500"
    using demo_498 by (simp_all add: demo_499)
  have run: "ticking ?t"
    using st by (simp add: ticking_def demo_route_def)
  have ge: "1 \<le> progressInSegment ?t + stepSize"
    using st by (simp add: stepSize_def)
  have "ticks 500 demo_app = tick ?t"
    using ticks.simps(2) [of 499 demo_app] by simp
  then show ?thesis
    using st by (simp add: tick_boundary [OF run ge])
qed

text \<open>
  C4 as stated fails at \<open>p = 0\<close>: after the 500 ticks of the first segment the progress
  is 0 on segment \<open>[(1,0), (1,1)]\<close>, while the reported position is still \<open>(0.998, 0)\<close>,
  not \<open>(1, 0)\<close>.
\<close>

theorem position_stale_at_progress_zero:
  "progressInSegment (ticks 500 demo_app) = 0 \<and> currentRouteIndex (ticks 500 demo_app) = 1
   \<and> ambulancePos (ticks 500 demo_app) = (499 / 500, 0)
   \<and> ambulancePos (ticks 500 demo_app) \<noteq>
       lerp (fullRoute (ticks 500 demo_app) ! currentRouteIndex (ticks 500 demo_app))
         (fullRoute (ticks 500 demo_app) ! (currentRouteIndex (ticks 500 demo_app) + 1))
         (progressInSegment (ticks 500 demo_app))"
  using demo_498 by (simp add: demo_500 demo_499 demo_route_def lerp_def)


theorem interpolated_position_witness:
  "progressInSegment (ticks 499 demo_app) = 499 / 500
   \<and> ambulancePos (ticks 499 demo_app) = lerp (0, 0) (1, 0) (499 / 500)"
proof -
  have p0: "progressInSegment demo_app = 0"
    by (simp add: demo_app_def initial_app_def)
  have st: "progressInSegment (ticks 499 demo_app) = 499 / 500"
    "currentRouteIndex (ticks 499 demo_app) = 0" "fullRoute (ticks 499 demo_app) = demo_route"
    using demo_498 by (simp_all add: demo_499)
  show ?thesis
    using interpolated_position [OF p0, of 499] by (simp add: st demo_route_def)
qed

lemma eta_formula_interior:
  assumes "ticking s" "progressInSegment s + stepSize < 1"
  shows "eta (tick s) = eta_formula (tick s)"
  by (simp add: tick_interior [OF assms] eta_formula_def)

lemma eta_formula_mono:
  assumes "fullRoute s' = fullRoute s"
    and "real (currentRouteIndex s) + progressInSegment s
          \<le> real (currentRouteIndex s') + progressInSegment s'"
  shows "eta_formula s' \<le> eta_formula s"
proof -
  have "(real_of_int (int (length (fullRoute s')) - 2 - int (currentRouteIndex s'))
              + (1 - progressInSegment s')) * 3
     \<le> (real_of_int (int (length (fullRoute s)) - 2 - int (currentRouteIndex s))
              + (1 - progressInSegment s)) * 3"
    using assms by simp
  then show ?thesis
    unfolding eta_formula_def by (intro max.mono ceiling_mono order_refl)
qed

lemma eta_ok_tick:
  assumes "eta_ok s"
  shows "eta_ok (tick s) \<and> eta (tick s) \<le> eta s"
proof (cases s rule: tick_cases)
  case idle
  then show ?thesis using assms by simp
next
  case boundary
  let ?s' = "s\<lparr>currentRouteIndex := currentRouteIndex s + 1, progressInSegment := 0\<rparr>"
  have "eta_formula ?s' \<le> eta_formula s"
    using assms by (intro eta_formula_mono) (simp_all add: eta_ok_def)
  then show ?thesis
    using assms by (simp add: boundary(3) eta_ok_def)
next
  case interior
  have le: "eta_formula (tick s) \<le> eta_formula s"
    by (intro eta_formula_mono) (simp_all add: interior(3) stepSize_def)
  have eq: "eta (tick s) = eta_formula (tick s)"
    using interior(1,2) by (rule eta_formula_interior)
  have "1 \<le> eta_formula (tick s)"
    by (simp add: eta_formula_def)
  moreover have "progressInSegment (tick s) = progressInSegment s + stepSize"
    by (simp add: interior(3))
  ultimately show ?thesis
    using assms le eq interior(2) by (simp add: eta_ok_def stepSize_def)
qed

lemma eta_ok_first:
  assumes "progressInSegment s = 0" "ticking s"
  shows "eta_ok (ticks 1 s)"
proof -
  have lt: "progressInSegment s + stepSize < 1"
    using assms by (simp add: stepSize_def)
  have "eta (tick s) = eta_formula (tick s)"
    using assms(2) lt by (rule eta_formula_interior)
  moreover have "1 \<le> eta_formula (tick s)"
    by (simp add: eta_formula_def)
  moreover have "progressInSegment (tick s) = stepSize"
    using assms by (simp add: tick_interior [OF assms(2) lt])
  ultimately show ?thesis
    by (simp add: eta_ok_def stepSize_def)
qed

lemma eta_ok_ticks:
  assumes "progressInSegment s = 0" "ticking s"
  shows "eta_ok (ticks (Suc k) s)"
proof (induction k)
  case 0
  show ?case using eta_ok_first [OF assms] by simp
next
  case (Suc k)
  then show ?case using eta_ok_tick [of "ticks (Suc k) s"] by simp
qed

lemma located_app_start:
  "appState located_app = Active" "currentRouteIndex located_app = 0"
  "progressInSegment located_app = 0" "fullRoute located_app = mock_route (0, 0)"
  "length (mock_route (0, 0)) = 5" "eta located_app = 7"
  by (simp_all add: located_app_def getCurrentPosition_def initial_app_def mock_route_def Let_def)

text \<open>
  C5 as stated fails on the first tick: on the route the application builds, the ETA shown
  before the first tick is the initial 7 and the first tick sets it to 12.
\<close>

theorem eta_rises_on_first_tick:
  "ticking located_app \<and> eta (ticks 0 located_app) = 7 \<and> eta (ticks 1 located_app) = 12
   \<and> \<not> eta (ticks 1 located_app) \<le> eta (ticks 0 located_app)"
proof -
  have run: "ticking located_app"
    by (simp add: ticking_def located_app_start)
  have lt: "progressInSegment located_app + stepSize < 1"
    by (simp add: located_app_start stepSize_def)
  have "eta (tick located_app) = 12"
    by (simp add: tick_interior [OF run lt] located_app_start stepSize_def)
  moreover have "ticks 1 located_app = tick located_app"
    using ticks.simps(2) [of 0 located_app] by simp
  ultimately show ?thesis
    using run by (simp add: located_app_start)
qed

text \<open>
  C5 (amended). Every tick that does not cross a segment boundary sets the ETA to
  \<open>max 1 \<lceil>(remaining_full_segments + (1 - progress)) * 3\<rceil>\<close>, with the advanced progress
  and \<open>length - 2 - index\<close> full segments after the current one; a boundary tick leaves
  it unchanged. In a run that starts ticking with progress 0, from the first tick on the
  ETA never increases from one tick to the next and is at least 1.
\<close>

theorem eta_per_tick:
  assumes "progressInSegment s = 0" "ticking s"
  shows "(ticking t \<and> progressInSegment t + stepSize < 1 \<longrightarrow>
            eta (tick t) =
              max 1 \<lceil>(real_of_int (int (length (fullRoute t)) - 2 - int (currentRouteIndex t))
                       + (1 - (progressInSegment t + stepSize))) * 3\<rceil>)
    \<and> (ticking t \<and> 1 \<le> progressInSegment t + stepSize \<longrightarrow> eta (tick t) = eta t)
    \<and> eta (ticks (Suc (Suc k)) s) \<le> eta (ticks (Suc k) s)
    \<and> 1 \<le> eta (ticks (Suc k) s)"
proof (intro conjI impI)
  assume "ticking t \<and> progressInSegment t + stepSize < 1"
  then have run: "ticking t" and lt: "progressInSegment t + stepSize < 1"
    by simp_all
  have e: "eta (tick t) = eta_formula (tick t)"
    using run lt by (rule eta_formula_interior)
  have f: "progressInSegment (tick t) = progressInSegment t + stepSize"
    "fullRoute (tick t) = fullRoute t" "currentRouteIndex (tick t) = currentRouteIndex t"
    by (simp_all add: tick_interior [OF run lt])
  show "eta (tick t) =
      max 1 \<lceil>(real_of_int (int (length (fullRoute t)) - 2 - int (currentRouteIndex t))
               + (1 - (progressInSegment t + stepSize))) * 3\<rceil>"
    by (simp only: e eta_formula_def f)
next
  assume "ticking t \<and> 1 \<le> progressInSegment t + stepSize"
  then show "eta (tick t) = eta t"
    by (simp add: tick_boundary)
next
  have ok: "eta_ok (ticks (Suc k) s)"
    using assms by (rule eta_ok_ticks)
  from eta_ok_tick [OF ok] show "eta (ticks (Suc (Suc k)) s) \<le> eta (ticks (Suc k) s)"
    by simp
  from ok show "1 \<le> eta (ticks (Suc k) s)"
    by (simp add: eta_ok_def)
qed

theorem eta_per_tick_witness:
  "eta (tick demo_app) = 6 \<and> eta (tick (ticks 498 demo_app)) = 4
   \<and> eta (tick (ticks 499 demo_app)) = eta (ticks 499 demo_app)
   \<and> eta (ticks 500 demo_app) \<le> eta (ticks 499 demo_app) \<and> 1 \<le> eta (ticks 499 demo_app)"
proof -
  have p0: "progressInSegment demo_app = 0" and run: "ticking demo_app"
    by (simp_all add: ticking_def demo_app_def demo_route_def initial_app_def)
  have first: "ticking demo_app \<and> progressInSegment demo_app + stepSize < 1"
    using run by (simp add: p0 stepSize_def)
  have s498: "ticking (ticks 498 demo_app) \<and> progressInSegment (ticks 498 demo_app) + stepSize < 1"
    using demo_498 by (simp add: ticking_def demo_route_def stepSize_def)
  have st: "appState (ticks 499 demo_app) = Active" "fullRoute (ticks 499 demo_app) = demo_route"
    "currentRouteIndex (ticks 499 demo_app) = 0" "progressInSegment (ticks 499 demo_app) = 499 / 500"
    using demo_498 by (simp_all add: demo_499)
  have s499: "ticking (ticks 499 demo_app) \<and> 1 \<le> progressInSegment (ticks 499 demo_app) + stepSize"
    using st by (simp add: ticking_def demo_route_def stepSize_def)
  from eta_per_tick [OF p0 run, of demo_app 0] first
  have 1: "eta (tick demo_app) = 6"
    by (simp add: demo_app_def demo_route_def initial_app_def stepSize_def)
  from eta_per_tick [OF p0 run, of "ticks 498 demo_app" 0] s498 demo_498
  have 2: "eta (tick (ticks 498 demo_app)) = 4"
    by (simp add: demo_route_def stepSize_def)
  from eta_per_tick [OF p0 run, of "ticks 499 demo_app" 498] s499
  have 3: "eta (tick (ticks 499 demo_app)) = eta (ticks 499 demo_app)"
    and 4: "eta (ticks 500 demo_app) \<le> eta (ticks 499 demo_app)"
    and 5: "1 \<le> eta (ticks 499 demo_app)"
    by simp_all
  from 1 2 3 4 5 show ?thesis
    by blast
qed

lemma lerp_strictly_inside:
  assumes "0 < p" "p < 1" "A \<noteq> B"
  shows "lerp A B p \<noteq> A" "lerp A B p \<noteq> B"
proof -
  obtain a1 a2 b1 b2 where AB: "A = (a1, a2)" "B = (b1, b2)"
    by (cases A, cases B) blast
  have d: "b1 - a1 \<noteq> 0 \<or> b2 - a2 \<noteq> 0"
    using assms(3) by (auto simp: AB)
  show "lerp A B p \<noteq> A"
    using d assms(1) by (auto simp: lerp_def AB)
  have "a1 + (b1 - a1) * p = b1 \<longleftrightarrow> (b1 - a1) * (p - 1) = 0" for a1 b1 :: real
    by (simp add: algebra_simps)
  then show "lerp A B p \<noteq> B"
    using d assms(2) by (auto simp: lerp_def AB)
qed

lemma mock_route_interior:
  assumes "0 < p" "p < 1" "i < 4"
  shows "lerp (mock_route u ! i) (mock_route u ! (i + 1)) p \<notin> set (mock_route u)"
proof -
  obtain a b where u: "u = (a, b)"
    by (cases u)
  from \<open>i < 4\<close> consider "i = 0" | "i = 1" | "i = 2" | "i = 3"
    by linarith
  then show ?thesis
  proof cases
    case 1
    have "b + 15 / 1000 + (b + 1 / 100 - (b + 15 / 1000)) * p = b + 15 / 1000 - p * 5 / 1000"
      by (simp add: algebra_simps)
    then show ?thesis
      using assms(1,2) unfolding 1 by (simp add: mock_route_def lerp_def u Let_def)
  next
    case 2
    then show ?thesis
      using assms(1,2) by (simp add: mock_route_def lerp_def u Let_def algebra_simps)
  next
    case 3
    then show ?thesis
      using assms(1,2) by (simp add: mock_route_def lerp_def u Let_def algebra_simps)
  next
    case 4
    then show ?thesis
      using assms(1,2) by (simp add: mock_route_def lerp_def u Let_def algebra_simps)
  qed
qed


text \<open>
  C10. On a tick whose advanced progress reaches 1, the tick only increments the segment
  index and resets the progress: position, bearing and ETA keep their values. On every
  other tick the position written lies strictly inside the segment, so it is neither
  endpoint of a segment with distinct endpoints, and on the route the application
  generates it is none of the five waypoints.
\<close>

theorem boundary_tick_frame:
  assumes "ticking s" "0 \<le> progressInSegment s"
  shows "(1 \<le> progressInSegment s + stepSize \<longrightarrow>
            tick s = s\<lparr>currentRouteIndex := currentRouteIndex s + 1, progressInSegment := 0\<rparr>
            \<and> ambulancePos (tick s) = ambulancePos s
            \<and> ambulanceBearing (tick s) = ambulanceBearing s
            \<and> eta (tick s) = eta s)
    \<and> (progressInSegment s + stepSize < 1 \<longrightarrow>
          fullRoute s ! currentRouteIndex s \<noteq> fullRoute s ! (currentRouteIndex s + 1) \<longrightarrow>
            ambulancePos (tick s) \<noteq> fullRoute s ! currentRouteIndex s
            \<and> ambulancePos (tick s) \<noteq> fullRoute s ! (currentRouteIndex s + 1))
    \<and> (progressInSegment s + stepSize < 1 \<longrightarrow> fullRoute s = mock_route userLoc \<longrightarrow>
          ambulancePos (tick s) \<notin> set (fullRoute s))"
proof (intro conjI impI)
  assume ge: "1 \<le> progressInSegment s + stepSize"
  show eq: "tick s = s\<lparr>currentRouteIndex := currentRouteIndex s + 1, progressInSegment := 0\<rparr>"
    using assms(1) ge by (rule tick_boundary)
  show "ambulancePos (tick s) = ambulancePos s" "ambulanceBearing (tick s) = ambulanceBearing s"
    "eta (tick s) = eta s"
    by (simp_all add: eq)
next
  let ?A = "fullRoute s ! currentRouteIndex s" and ?B = "fullRoute s ! (currentRouteIndex s + 1)"
  let ?p = "progressInSegment s + stepSize"
  assume lt: "?p < 1"
  have pos: "0 < ?p"
    using assms(2) by (simp add: stepSize_def)
  have at: "ambulancePos (tick s) = lerp ?A ?B ?p"
    by (simp add: tick_interior [OF assms(1) lt])
  {
    assume ne: "?A \<noteq> ?B"
    show "ambulancePos (tick s) \<noteq> ?A"
      unfolding at using pos lt ne by (rule lerp_strictly_inside(1))
    show "ambulancePos (tick s) \<noteq> ?B"
      unfolding at using pos lt ne by (rule lerp_strictly_inside(2))
  }
  {
    assume r: "fullRoute s = mock_route userLoc"
    have "currentRouteIndex s < 4"
      using assms(1) by (simp add: ticking_def r mock_route_def Let_def)
    then show "ambulancePos (tick s) \<notin> set (fullRoute s)"
      unfolding at r using pos lt by (intro mock_route_interior)
  }
qed

theorem boundary_tick_frame_witness:
  "tick (ticks 499 demo_app) = (ticks 499 demo_app)\<lparr>currentRouteIndex := 1, progressInSegment := 0\<rparr>
   \<and> ambulancePos (tick (ticks 499 demo_app)) = ambulancePos (ticks 499 demo_app)
   \<and> eta (tick (ticks 499 demo_app)) = eta (ticks 499 demo_app)
   \<and> ambulancePos (tick demo_app) \<noteq> (1, 0)
   \<and> ambulancePos (tick ((getCurrentPosition (0, 0) initial_app)\<lparr>appState := Active\<rparr>))
       \<notin> set (mock_route (0, 0))"
proof -
  let ?t = "ticks 499 demo_app"
  let ?g = "(getCurrentPosition (0, 0) initial_app)\<lparr>appState := Active\<rparr>"
  have st: "appState ?t = Active" "fullRoute ?t = demo_route" "currentRouteIndex ?t = 0"
    "progressInSegment ?t = 499 / 500"
    using demo_498 by (simp_all add: demo_499)
  have run: "ticking ?t"
    using st by (simp add: ticking_def demo_route_def)
  have nn: "0 \<le> progressInSegment ?t"
    using st by simp
  have run0: "ticking demo_app" and nn0: "0 \<le> progressInSegment demo_app"
    by (simp_all add: ticking_def demo_app_def demo_route_def initial_app_def)
  have rung: "ticking ?g" and nng: "0 \<le> progressInSegment ?g"
    and rg: "fullRoute ?g = mock_route (0, 0)"
    by (simp_all add: ticking_def getCurrentPosition_def initial_app_def mock_route_def Let_def)
  have pg: "progressInSegment ?g + stepSize < 1"
    by (simp add: getCurrentPosition_def initial_app_def stepSize_def)
  from boundary_tick_frame [OF run nn, of "(0, 0)"] st
  have 1: "tick ?t = ?t\<lparr>currentRouteIndex := 1, progressInSegment := 0\<rparr>
      \<and> ambulancePos (tick ?t) = ambulancePos ?t \<and> eta (tick ?t) = eta ?t"
    by (simp add: stepSize_def)
  from boundary_tick_frame [OF run0 nn0, of "(0, 0)"]
  have 2: "ambulancePos (tick demo_app) \<noteq> (1, 0)"
    by (simp add: demo_app_def demo_route_def initial_app_def stepSize_def)
  from boundary_tick_frame [OF rung nng, of "(0, 0)"] pg rg
  have 3: "ambulancePos (tick ?g) \<notin> set (mock_route (0, 0))"
    by simp
  from 1 2 3 show ?thesis
    by blast
qed

subsection \<open>Session phases\<close>

lemma run_until_idle: "next_due t (timeouts w) = None \<Longrightarrow> run_until t w = w\<lparr>now := t\<rparr>"
  by (simp add: run_until.simps)

lemma run_until_fire:
  "next_due t (timeouts w) = Some (d, a) \<Longrightarrow>
   run_until t w = run_until t (fire a (w\<lparr>now := d, timeouts := remove1 (d, a) (timeouts w)\<rparr>))"
  by (subst run_until.simps) simp

lemma elapse_pending:
  "timeouts w = [(d, a)] \<Longrightarrow> now w + dt < d \<Longrightarrow> elapse dt w = w\<lparr>now := now w + dt\<rparr>"
  by (simp add: elapse_def run_until_idle)

lemma elapse_dispatch:
  assumes "timeouts w = [(d, DispatchConfirmed)]" "d \<le> now w + dt" "now w + dt < d + 3000"
  shows "elapse dt w =
    w\<lparr>ui := (ui w)\<lparr>appState := Active, aiSuggestions := guidance_tips\<rparr>,
      now := now w + dt, timeouts := [(d + 3000, IncomingCall)]\<rparr>"
proof -
  let ?w' = "fire DispatchConfirmed (w\<lparr>now := d, timeouts := remove1 (d, DispatchConfirmed) (timeouts w)\<rparr>)"
  have "next_due (now w + dt) (timeouts w) = Some (d, DispatchConfirmed)"
    using assms by simp
  then have "run_until (now w + dt) w = run_until (now w + dt) ?w'"
    by (rule run_until_fire)
  also have "next_due (now w + dt) (timeouts ?w') = None"
    using assms by (simp add: setTimeout_def)
  then have "run_until (now w + dt) ?w' = ?w'\<lparr>now := now w + dt\<rparr>"
    by (rule run_until_idle)
  finally show ?thesis
    using assms by (simp add: elapse_def setTimeout_def)
qed

lemma elapse_incoming:
  assumes "timeouts w = [(d, IncomingCall)]" "d \<le> now w + dt"
  shows "elapse dt w = w\<lparr>ui := (ui w)\<lparr>isIncomingCall := True\<rparr>, now := now w + dt, timeouts := []\<rparr>"
proof -
  let ?w' = "fire IncomingCall (w\<lparr>now := d, timeouts := remove1 (d, IncomingCall) (timeouts w)\<rparr>)"
  have "next_due (now w + dt) (timeouts w) = Some (d, IncomingCall)"
    using assms by simp
  then have "run_until (now w + dt) w = run_until (now w + dt) ?w'"
    by (rule run_until_fire)
  also have "next_due (now w + dt) (timeouts ?w') = None"
    using assms by simp
  then have "run_until (now w + dt) ?w' = ?w'\<lparr>now := now w + dt\<rparr>"
    by (rule run_until_idle)
  finally show ?thesis
    using assms by (simp add: elapse_def)
qed

text \<open>
  C7. With no timeout pending, an SOS tap sets the phase to dispatching (\<open>Emergency\<close>);
  it stays so for less than 2500 ms; at 2500 ms the phase is active and the guidance
  tips are the three fixed entries; the incoming-call flag keeps its value for less than
  3000 ms more and is set at 3000 ms.
\<close>

theorem sos_scenario:
  assumes "timeouts w = []"
  shows "appState (ui (triggerSOS w)) = Emergency
    \<and> (\<forall>dt < 2500. appState (ui (elapse dt (triggerSOS w))) = Emergency)
    \<and> appState (ui (elapse 2500 (triggerSOS w))) = Active
    \<and> aiSuggestions (ui (elapse 2500 (triggerSOS w))) = guidance_tips
    \<and> length guidance_tips = 3
    \<and> (\<forall>dt < 3000. isIncomingCall (ui (elapse dt (elapse 2500 (triggerSOS w))))
          = isIncomingCall (ui w))
    \<and> isIncomingCall (ui (elapse 3000 (elapse 2500 (triggerSOS w))))"
proof -
  let ?s = "triggerSOS w"
  have t0: "timeouts ?s = [(now ?s + 2500, DispatchConfirmed)]" and n0: "now ?s = now w"
    using assms by (simp_all add: triggerSOS_def setTimeout_def)
  have before: "elapse dt ?s = ?s\<lparr>now := now ?s + dt\<rparr>" if "dt < 2500" for dt
    using that by (intro elapse_pending [OF t0]) linarith
  let ?a = "elapse 2500 ?s"
  have a: "?a = ?s\<lparr>ui := (ui ?s)\<lparr>appState := Active, aiSuggestions := guidance_tips\<rparr>,
      now := now ?s + 2500, timeouts := [(now ?s + 2500 + 3000, IncomingCall)]\<rparr>"
    by (rule elapse_dispatch [OF t0]) simp_all
  have t1: "timeouts ?a = [(now ?a + 3000, IncomingCall)]"
    by (simp add: a)
  have during: "elapse dt ?a = ?a\<lparr>now := now ?a + dt\<rparr>" if "dt < 3000" for dt
    using that by (intro elapse_pending [OF t1]) linarith
  have c: "elapse 3000 ?a = ?a\<lparr>ui := (ui ?a)\<lparr>isIncomingCall := True\<rparr>, now := now ?a + 3000,
      timeouts := []\<rparr>"
    by (rule elapse_incoming [OF t1]) simp
  have e: "appState (ui ?s) = Emergency" and i: "isIncomingCall (ui ?s) = isIncomingCall (ui w)"
    by (simp_all add: triggerSOS_def setTimeout_def)
  note e
  moreover have "\<forall>dt < 2500. appState (ui (elapse dt ?s)) = Emergency"
    by (simp add: before e)
  moreover have "appState (ui ?a) = Active" "aiSuggestions (ui ?a) = guidance_tips"
    by (simp_all add: a)
  moreover have "length guidance_tips = 3"
    by (simp add: guidance_tips_def)
  moreover have "\<forall>dt < 3000. isIncomingCall (ui (elapse dt ?a)) = isIncomingCall (ui w)"
    by (simp add: during) (simp add: a i)
  moreover have "isIncomingCall (ui (elapse 3000 ?a))"
    by (simp add: c)
  ultimately show ?thesis
    by blast
qed

theorem sos_scenario_witness:
  "appState (ui (triggerSOS initial_sys)) = Emergency
   \<and> appState (ui (elapse 2499 (triggerSOS initial_sys))) = Emergency
   \<and> appState (ui (elapse 2500 (triggerSOS initial_sys))) = Active
   \<and> length (aiSuggestions (ui (elapse 2500 (triggerSOS initial_sys)))) = 3
   \<and> \<not> isIncomingCall (ui (elapse 2999 (elapse 2500 (triggerSOS initial_sys))))
   \<and> isIncomingCall (ui (elapse 3000 (elapse 2500 (triggerSOS initial_sys))))"
proof -
  have "timeouts initial_sys = []"
    by (simp add: initial_sys_def)
  from sos_scenario [OF this] show ?thesis
    by (simp add: initial_sys_def initial_app_def)
qed

lemma fire_rank: "phase_rank (appState (ui w)) \<le> phase_rank (appState (ui (fire a w)))"
  by (cases a; cases "appState (ui w)") (simp_all add: phase_rank_def setTimeout_def)

lemma run_until_rank: "phase_rank (appState (ui w)) \<le> phase_rank (appState (ui (run_until t w)))"
proof (induction t w rule: run_until.induct)
  case (1 t w)
  show ?case
  proof (cases "next_due t (timeouts w)")
    case None
    then show ?thesis by (simp add: run_until_idle)
  next
    case (Some x)
    obtain d a where x: "x = (d, a)" by (cases x)
    let ?w' = "fire a (w\<lparr>now := d, timeouts := remove1 (d, a) (timeouts w)\<rparr>)"
    have "phase_rank (appState (ui w)) \<le> phase_rank (appState (ui ?w'))"
      using fire_rank [of "w\<lparr>now := d, timeouts := remove1 (d, a) (timeouts w)\<rparr>" a] by simp
    also have "\<dots> \<le> phase_rank (appState (ui (run_until t ?w')))"
      using Some x by (intro "1.IH") simp_all
    also have "run_until t ?w' = run_until t w"
      using Some x by (simp add: run_until_fire)
    finally show ?thesis .
  qed
qed

text \<open>
  C8 (amended). \<open>triggerSOS\<close> has no guard: from any phase it sets the phase to
  dispatching and registers one more 2500 ms timeout. The guard is in the view: the SOS
  button exists in the idle view only, so a tap in any other phase changes nothing, and
  neither a tap nor the passing of time ever moves the phase backwards.
\<close>

theorem sos_unguarded_view_gated:
  "appState (ui (triggerSOS w)) = Emergency
   \<and> timeouts (triggerSOS w) = timeouts w @ [(now w + 2500, DispatchConfirmed)]
   \<and> (appState (ui w) \<noteq> Idle \<longrightarrow> click_SOS w = w)
   \<and> phase_rank (appState (ui w)) \<le> phase_rank (appState (ui (click_SOS w)))
   \<and> phase_rank (appState (ui w)) \<le> phase_rank (appState (ui (elapse dt w)))"
proof -
  have "phase_rank (appState (ui w)) \<le> phase_rank (appState (ui (click_SOS w)))"
    by (cases "appState (ui w)") (simp_all add: click_SOS_def triggerSOS_def setTimeout_def phase_rank_def)
  moreover have "phase_rank (appState (ui w)) \<le> phase_rank (appState (ui (elapse dt w)))"
    unfolding elapse_def by (rule run_until_rank)
  ultimately show ?thesis
    by (simp add: triggerSOS_def setTimeout_def click_SOS_def)
qed

lemma active_sys_eq:
  "active_sys = \<lparr>ui = initial_app\<lparr>appState := Active, aiSuggestions := guidance_tips\<rparr>,
     now = 2500, timeouts = [(5500, IncomingCall)]\<rparr>"
proof -
  let ?s = "triggerSOS initial_sys"
  have "timeouts ?s = [(2500, DispatchConfirmed)]" "now ?s = 0"
    by (simp_all add: triggerSOS_def setTimeout_def initial_sys_def)
  then have "elapse 2500 ?s =
    ?s\<lparr>ui := (ui ?s)\<lparr>appState := Active, aiSuggestions := guidance_tips\<rparr>,
      now := now ?s + 2500, timeouts := [(2500 + 3000, IncomingCall)]\<rparr>"
    by (intro elapse_dispatch) simp_all
  then show ?thesis
    by (simp add: active_sys_def triggerSOS_def setTimeout_def initial_sys_def)
qed

text \<open>
  C8 as stated fails: invoked in the active phase, \<open>triggerSOS\<close> puts the phase back to
  dispatching and registers a second timeout.
\<close>

theorem sos_while_active_restarts:
  "appState (ui active_sys) = Active
   \<and> appState (ui (triggerSOS active_sys)) = Emergency
   \<and> triggerSOS active_sys \<noteq> active_sys
   \<and> timeouts (triggerSOS active_sys) = [(5500, IncomingCall), (5000, DispatchConfirmed)]
   \<and> phase_rank (appState (ui (triggerSOS active_sys))) < phase_rank (appState (ui active_sys))"
  by (simp add: active_sys_eq triggerSOS_def setTimeout_def phase_rank_def)

theorem sos_unguarded_view_gated_witness:
  "appState (ui (triggerSOS active_sys)) = Emergency
   \<and> click_SOS active_sys = active_sys
   \<and> phase_rank (appState (ui active_sys)) \<le> phase_rank (appState (ui (elapse 3000 active_sys)))"
proof -
  have "appState (ui active_sys) \<noteq> Idle"
    by (simp add: active_sys_eq)
  then show ?thesis
    using sos_unguarded_view_gated [of active_sys 3000] by blast
qed

subsection \<open>Playback scheduling\<close>

lemma onmessage_cases:
  obtains (skip) "onmessage c data p = p"
  | (play) xs where "onmessage c data p = schedule_buffer c xs p"
proof (cases data)
  case None
  then have "onmessage c data p = p"
    by (simp add: onmessage_def)
  then show ?thesis by (rule skip)
next
  case (Some bytes)
  show ?thesis
  proof (cases "bytes = [] \<or> odd (length bytes)")
    case True
    then have "onmessage c data p = p"
      by (auto simp: onmessage_def Some)
    then show ?thesis by (rule skip)
  next
    case False
    then have "onmessage c data p = schedule_buffer c (int16_of_bytes bytes) p"
      by (simp add: onmessage_def Some)
    then show ?thesis by (rule play)
  qed
qed

lemma sequential_snoc:
  "sequential (es @ [e]) \<longleftrightarrow>
     sequential es \<and> (es \<noteq> [] \<longrightarrow> start_time (last es) + duration (last es) \<le> start_time e)"
  by (induction es rule: sequential.induct) auto

lemma schedule_buffer_ok: "cursor_ok p \<Longrightarrow> cursor_ok (schedule_buffer c xs p)"
  by (simp add: cursor_ok_def schedule_buffer_def Let_def sequential_snoc not_before_clock_def
      le_max_iff_disj)

lemma schedule_buffer_cursor: "nextStartTime p \<le> nextStartTime (schedule_buffer c xs p)"
  by (simp add: schedule_buffer_def Let_def OUTPUT_SAMPLE_RATE_def max_def)

lemma onmessage_ok: "cursor_ok p \<Longrightarrow> cursor_ok (onmessage c data p)"
  by (cases c data p rule: onmessage_cases) (simp_all add: schedule_buffer_ok)

lemma onmessage_cursor: "nextStartTime p \<le> nextStartTime (onmessage c data p)"
  by (cases c data p rule: onmessage_cases) (simp_all add: schedule_buffer_cursor)

lemma receive_ok: "cursor_ok p \<Longrightarrow> cursor_ok (receive msgs p)"
  by (induction msgs p rule: receive.induct) (simp_all add: onmessage_ok)

lemma receive_cursor: "nextStartTime p \<le> nextStartTime (receive msgs p)"
proof (induction msgs p rule: receive.induct)
  case (1 p)
  show ?case by simp
next
  case (2 c data msgs p)
  have "nextStartTime p \<le> nextStartTime (onmessage c data p)"
    by (rule onmessage_cursor)
  also note 2
  finally show ?case by simp
qed

lemma receive_append: "receive (ms @ ns) p = receive ns (receive ms p)"
  by (induction ms p rule: receive.induct) simp_all

text \<open>
  C3. For any sequence of received messages, starting from an empty log: every scheduled
  source starts at or after the end of the one scheduled before it, and at or after the
  clock read when it was scheduled; the next-start-time cursor never decreases when one
  more message arrives.
\<close>

theorem playback_sequential:
  assumes "started p = []"
  shows "sequential (started (receive msgs p))
    \<and> not_before_clock (started (receive msgs p))
    \<and> nextStartTime (receive msgs p) \<le> nextStartTime (receive (msgs @ [(c, data)]) p)"
proof -
  have "cursor_ok p"
    using assms by (simp add: cursor_ok_def not_before_clock_def)
  then have "cursor_ok (receive msgs p)"
    by (rule receive_ok)
  moreover have "nextStartTime (receive msgs p) \<le> nextStartTime (receive (msgs @ [(c, data)]) p)"
    by (simp add: receive_append onmessage_cursor)
  ultimately show ?thesis
    by (simp add: cursor_ok_def)
qed

theorem playback_sequential_witness:
  "sequential (started (receive [(0, Some [1, 2, 3, 4]), (1, None)] initial_playback))
   \<and> not_before_clock (started (receive [(0, Some [1, 2, 3, 4]), (1, None)] initial_playback))
   \<and> nextStartTime (receive [(0, Some [1, 2, 3, 4]), (1, None)] initial_playback)
       \<le> nextStartTime
           (receive ([(0, Some [1, 2, 3, 4]), (1, None)] @ [(0, Some [0, 0])]) initial_playback)"
proof -
  have "started initial_playback = []"
    by (simp add: initial_playback_def)
  then show ?thesis
    by (rule playback_sequential)
qed

subsection \<open>Call initialisation\<close>

text \<open>
  C9. With an absent (undefined or empty) credential, call initialisation returns the
  bridge as it was: nothing is added to the acquired resources and neither audio context
  reference is set.
\<close>

theorem missing_credential_no_op:
  "falsy API_KEY \<Longrightarrow>
     initLiveSession API_KEY video granted b = b
     \<and> acquired (initLiveSession API_KEY video granted b) = acquired b
     \<and> audioContextRef (initLiveSession API_KEY video granted b) = audioContextRef b
     \<and> outputAudioContextRef (initLiveSession API_KEY video granted b) = outputAudioContextRef b"
  by (simp add: initLiveSession_def)

lemma credential_present_acquires:
  "\<not> falsy API_KEY \<Longrightarrow>
     acquired (initLiveSession API_KEY video True b) =
       acquired b @ [GenAIClient, AudioContext 16000, AudioContext 24000, UserMedia video, LiveConnect]"
  by (simp add: initLiveSession_def Let_def SAMPLE_RATE_def OUTPUT_SAMPLE_RATE_def)

theorem missing_credential_no_op_witness:
  "initLiveSession None True True initial_bridge = initial_bridge
   \<and> acquired (initLiveSession (Some []) False True initial_bridge) = []"
proof -
  have "falsy None" "falsy (Some [])"
    by (simp_all add: falsy_def)
  then show ?thesis
    using missing_credential_no_op [of None True True initial_bridge]
      missing_credential_no_op [of "Some []" False True initial_bridge]
    by (simp add: initial_bridge_def)
qed

subsection \<open>Sample round trip\<close>

lemma sint_word_of_int_16:
  "- 32768 \<le> i \<Longrightarrow> i < 32768 \<Longrightarrow> sint (word_of_int i :: int16) = i"
  by (simp add: sint_sbintrunc' signed_take_bit_int_eq_self_iff)

lemma js_trunc_bounds:
  assumes "- 1 \<le> x" "x < 1"
  shows "- 32768 \<le> js_trunc (x * 32768)" "js_trunc (x * 32768) < 32768"
proof -
  have lo: "- 32768 \<le> x * 32768" and hi: "x * 32768 < 32768"
    using assms by simp_all
  show "- 32768 \<le> js_trunc (x * 32768)"
    using lo unfolding js_trunc_def by (auto simp: le_floor_iff le_ceiling_iff)
  show "js_trunc (x * 32768) < 32768"
    using hi unfolding js_trunc_def by (auto simp: floor_less_iff ceiling_less_iff)
qed

lemma js_trunc_error: "\<bar>real_of_int (js_trunc v) - v\<bar> < 1"
  unfolding js_trunc_def by (simp split: if_splits) linarith

lemma roundtrip_below_full_scale:
  assumes "- 1 \<le> x" "x < 1"
  shows "\<bar>decode_sample (encode_sample x) - x\<bar> < 1 / 32768"
proof -
  let ?i = "js_trunc (x * 32768)"
  have "sint (word_of_int ?i :: int16) = ?i"
    using js_trunc_bounds [OF assms] by (rule sint_word_of_int_16)
  then have eq: "decode_sample (encode_sample x) = real_of_int ?i / 32768"
    by (simp add: decode_sample_def encode_sample_def to_int16_def)
  have "\<bar>real_of_int ?i - x * 32768\<bar> < 1"
    by (rule js_trunc_error)
  then have "\<bar>real_of_int ?i / 32768 - x\<bar> < 1 / 32768"
    by linarith
  then show ?thesis
    by (simp only: eq)
qed

text \<open>
  C1. The round trip of a sample in \<open>[-1, 1]\<close> should stay within \<open>1/32768\<close>. At the
  full-scale sample \<open>1.0\<close> the product is \<open>32768\<close>, which ToInt16 wraps to \<open>-32768\<close>:
  the decoded sample is \<open>-1.0\<close>, at distance \<open>2\<close> from the input.
\<close>

theorem roundtrip_full_scale_wraps:
  "encode_sample 1 = word_of_int (- 32768) \<and> decode_sample (encode_sample 1) = - 1
   \<and> \<not> \<bar>decode_sample (encode_sample 1) - 1\<bar> \<le> 1 / 32768"
  by (simp add: encode_sample_def to_int16_def js_trunc_def decode_sample_def)

end
